theory Spec2Isabelle
  imports Complex_Main "HOL-Library.Word"
begin

section \<open>Data model of the interpolation page\<close>

text \<open>
  The page \<^verbatim>\<open>riffusion/streamlit/pages/interpolation.py\<close> reads widget values, schedules
  the blend coefficients, drives one memoised inference call per coefficient, stitches
  the decoded audio and packages the result. Python floats are idealised as exact
  rationals; byte strings are lists of 8-bit words.
\<close>

type_synonym bytes = "8 word list"

datatype error =
    ValidationError    \<comment> \<open>lines 114-116: an endpoint prompt is empty, \<open>st.info\<close> and \<open>return\<close>\<close>
  | SeedImageMissing   \<comment> \<open>lines 128-130: custom seed chosen, nothing uploaded, \<open>st.info\<close> and \<open>return\<close>\<close>
  | SeedImageError     \<comment> \<open>\<open>Image.open\<close> raises\<close>
  | TypeError          \<comment> \<open>a dataclass constructor misses a required argument\<close>
  | InferenceError     \<comment> \<open>checkpoint loading, \<open>riffuse\<close> or the spectrogram decoder raises\<close>
  | CodecError         \<comment> \<open>\<open>AudioSegment.from_file\<close> or \<open>export\<close> raises\<close>
  | IndexError         \<comment> \<open>\<open>audio_segments[0]\<close> on an empty list\<close>

datatype pyval = PStr string | PInt int | PFloat rat

text \<open>
  Modelled from the spec: the dataclasses \<open>PromptInput\<close> and \<open>InferenceInput\<close> of
  \<^verbatim>\<open>riffusion.datatypes\<close> are imported by the page but declared elsewhere. Their fields
  are the ones the page sets (lines 106, 110, 142-148) and the data model lists; the
  field \<open>end\<close> is written \<open>end_prompt\<close>.
\<close>

record prompt_input =
  prompt :: string
  seed :: int
  negative_prompt :: "string option"
  denoising :: rat
  guidance :: rat

record inference_input =
  start :: prompt_input
  end_prompt :: prompt_input
  alpha :: rat
  num_inference_steps :: int
  seed_image_id :: string

record spectrogram_params =
  min_frequency :: int
  max_frequency :: int

text \<open>A \<open>pydub.AudioSegment\<close>: raw sample bytes and their format.\<close>

record audio_segment =
  raw_data :: bytes
  sample_width :: nat
  frame_rate :: nat
  channels :: nat

text \<open>An \<open>io.BytesIO\<close>: the buffer and the stream position.\<close>

record bytes_io =
  buffer :: bytes
  pos :: nat

datatype 'file seed_source = SeedPath string | SeedUpload 'file

text \<open>The widget values one script run reads (sidebar, form and upload).\<close>

record 'file widgets =
  w_device :: string
  w_extension :: string
  w_num_interpolation_steps :: nat
  w_num_inference_steps :: int
  w_guidance :: rat
  w_init_image_name :: string
  w_init_image_file :: "'file option"
  w_show_individual_outputs :: bool
  w_show_images :: bool
  w_text_input :: "string \<Rightarrow> string"
  w_int_input :: "string \<Rightarrow> int"
  w_number_input :: "string \<Rightarrow> rat"

text \<open>
  The external collaborators, taken as parameters: checkpoint loading, the diffusion
  pipeline, the spectrogram decoder, PIL, and the pydub codec. \<open>None\<close> stands for a raised
  exception. \<open>resample\<close> is pydub's format conversion (channels, frame rate, sample width).
\<close>

record ('img, 'file, 'pipe) collaborators =
  load_riffusion_checkpoint :: "string \<Rightarrow> bool \<Rightarrow> 'pipe option"
  riffuse :: "'pipe \<Rightarrow> inference_input \<Rightarrow> 'img \<Rightarrow> 'img option \<Rightarrow> 'img option"
  audio_bytes_from_spectrogram_image ::
    "'img \<Rightarrow> spectrogram_params \<Rightarrow> string \<Rightarrow> string \<Rightarrow> bytes option"
  image_open :: "'file seed_source \<Rightarrow> 'img option"
  convert :: "'img \<Rightarrow> string \<Rightarrow> 'img"
  from_file :: "bytes \<Rightarrow> audio_segment option"
  encode :: "audio_segment \<Rightarrow> string \<Rightarrow> bytes option"
  resample :: "audio_segment \<Rightarrow> nat \<times> nat \<times> nat \<Rightarrow> audio_segment"

type_synonym 'img memo_key = "inference_input \<times> 'img \<times> string \<times> string"

datatype 'img event =
    InferCall "'img memo_key"     \<comment> \<open>the page calls the memoised \<open>run_interpolation\<close>\<close>
  | Invoke "'img memo_key"        \<comment> \<open>the body runs: the collaborators are invoked\<close>
  | InferReturn "'img memo_key" "'img \<times> bytes"   \<comment> \<open>the call returns its result to the page\<close>

datatype 'img ui_out =
    Info string
  | Write string
  | Json inference_input
  | ImageOut 'img
  | AudioOut bytes
  | DownloadButton string bytes_io string string

text \<open>
  What outlives one call: the \<open>st.experimental_memo\<close> cache, the record of calls, and
  what the page has shown.
\<close>

record 'img session =
  memo :: "('img memo_key \<times> ('img \<times> bytes)) list"
  events :: "'img event list"
  ui :: "'img ui_out list"

definition fresh :: "'img session" where
  "fresh = \<lparr>memo = [], events = [], ui = []\<rparr>"

definition say :: "'img ui_out list \<Rightarrow> 'img session \<Rightarrow> 'img session" where
  "say outs s = s\<lparr>ui := ui s @ outs\<rparr>"

definition record_events :: "'img event list \<Rightarrow> 'img session \<Rightarrow> 'img session" where
  "record_events evs s = s\<lparr>events := events s @ evs\<rparr>"

section \<open>Formatting\<close>

fun decimal :: "nat \<Rightarrow> string" where
  "decimal n =
     (if n < 10 then [''0123456789'' ! n]
      else decimal (n div 10) @ [''0123456789'' ! (n mod 10)])"

declare decimal.simps [simp del]

definition round_half_even :: "rat \<Rightarrow> int" where
  "round_half_even x =
     (let f = \<lfloor>x\<rfloor>; r = x - of_int f
      in if r < 1 / 2 then f else if 1 / 2 < r then f + 1
         else if even f then f else f + 1)"

text \<open>Python's \<open>f"{x:.df}"\<close>: \<open>d\<close> digits after the point, the exact value rounded half to even.\<close>

definition format_f :: "nat \<Rightarrow> rat \<Rightarrow> string" where
  "format_f d x =
     (let n = nat (round_half_even (\<bar>x\<bar> * 10 ^ d));
          ds = decimal n;
          padded = replicate (Suc d - length ds) (CHR ''0'') @ ds;
          k = length padded - d
      in (if x < 0 then ''-'' else []) @ take k padded
         @ (if d = 0 then [] else ''.'' @ drop k padded))"

fun join :: "string \<Rightarrow> string list \<Rightarrow> string" where
  "join sep [] = []"
| "join sep [x] = x"
| "join sep (x # y # ys) = x @ sep @ join sep (y # ys)"

text \<open>\<open>str.replace(old, new)\<close> for single characters.\<close>

definition replace_chr :: "char \<Rightarrow> char \<Rightarrow> string \<Rightarrow> string" where
  "replace_chr old new s = map (\<lambda>c. if c = old then new else c) s"

section \<open>Alpha scheduler\<close>

text \<open>
  \<open>numpy.linspace(start, stop, num)\<close> with the default \<open>endpoint=True\<close>: the index range
  scaled by the step, shifted by the start \<open>lo\<close>, and the last entry overwritten by the stop \<open>hi\<close> when
  there is more than one.
\<close>

definition linspace :: "rat \<Rightarrow> rat \<Rightarrow> nat \<Rightarrow> rat list" where
  "linspace lo hi num =
     (let dv = int num - 1;
          delta = hi - lo;
          y = map rat_of_nat [0..<num];
          y = (if 0 < dv then
                 (let step = delta / rat_of_int dv
                  in if step = 0 then map (\<lambda>v. v / rat_of_int dv * delta) y
                     else map (\<lambda>v. v * step) y)
               else map (\<lambda>v. v * delta) y);
          y = map (\<lambda>v. v + lo) y
      in if 1 < num then y[num - 1 := hi] else y)"

definition enumerate_list :: "'a list \<Rightarrow> (nat \<times> 'a) list" where
  "enumerate_list xs = zip [0..<length xs] xs"

section \<open>Prompt inputs\<close>

definition get_prompt_inputs ::
  "'file widgets \<Rightarrow> string \<Rightarrow> bool \<Rightarrow> bool \<Rightarrow> (string \<rightharpoonup> pyval)" where
  "get_prompt_inputs w key include_negative_prompt cols =
     (let p = Map.empty;
          p = p(''prompt'' \<mapsto> PStr (w_text_input w (''prompt_'' @ key)));
          p = (if include_negative_prompt
               then p(''negative_prompt'' \<mapsto> PStr (w_text_input w (''negative_prompt_'' @ key)))
               else p);
          p = p(''seed'' \<mapsto> PInt (w_int_input w (''seed_'' @ key)));
          p = p(''denoising'' \<mapsto> PFloat (w_number_input w (''denoising_'' @ key)))
      in p)"

text \<open>
  Modelled from the spec: the constructor call \<open>PromptInput(guidance=g, **kw)\<close>. The
  prompt text, the seed and the denoising strength are required; the negative prompt is
  optional and absent unless given.
\<close>

definition PromptInput :: "rat \<Rightarrow> (string \<rightharpoonup> pyval) \<Rightarrow> error + prompt_input" where
  "PromptInput g kw =
     (case (kw ''prompt'', kw ''seed'', kw ''denoising'') of
        (Some (PStr p), Some (PInt sd), Some (PFloat dn)) \<Rightarrow>
          Inr \<lparr>prompt = p, seed = sd,
               negative_prompt = (case kw ''negative_prompt'' of Some (PStr n) \<Rightarrow> Some n | _ \<Rightarrow> None),
               denoising = dn, guidance = g\<rparr>
      | _ \<Rightarrow> Inl TypeError)"

section \<open>Per-step inference and its cache\<close>

definition run_interpolation ::
  "('img, 'file, 'pipe) collaborators \<Rightarrow> inference_input \<Rightarrow> 'img \<Rightarrow> string \<Rightarrow> string
     \<Rightarrow> error + ('img \<times> bytes)" where
  "run_interpolation c inputs init_image device extension =
     (case load_riffusion_checkpoint c device True of
        None \<Rightarrow> Inl InferenceError
      | Some pipeline \<Rightarrow>
          (case riffuse c pipeline inputs init_image None of
             None \<Rightarrow> Inl InferenceError
           | Some img \<Rightarrow>
               (let params = \<lparr>min_frequency = 0, max_frequency = 10000\<rparr>
                in case audio_bytes_from_spectrogram_image c img params device extension of
                     None \<Rightarrow> Inl InferenceError
                   | Some audio_bytes \<Rightarrow> Inr (img, audio_bytes))))"

text \<open>
  The decorator \<open>@st.experimental_memo\<close>: the arguments are the key; a hit returns the
  stored result without running the body, a miss runs the body and stores what it
  returns. A body that raises stores nothing.
\<close>

definition run_interpolation_memo ::
  "('img, 'file, 'pipe) collaborators \<Rightarrow> inference_input \<Rightarrow> 'img \<Rightarrow> string \<Rightarrow> string
     \<Rightarrow> 'img session \<Rightarrow> (error + ('img \<times> bytes)) \<times> 'img session" where
  "run_interpolation_memo c inputs init_image device extension s0 =
     (let k = (inputs, init_image, device, extension);
          s = record_events [InferCall k] s0
      in case map_of (memo s) k of
           Some r \<Rightarrow> (Inr r, record_events [InferReturn k r] s)
         | None \<Rightarrow>
             (case run_interpolation c inputs init_image device extension of
                Inl e \<Rightarrow> (Inl e, record_events [Invoke k] s)
              | Inr r \<Rightarrow> (Inr r, record_events [Invoke k, InferReturn k r] (s\<lparr>memo := (k, r) # memo s\<rparr>))))"

section \<open>Inference request builder\<close>

text \<open>
  Modelled from the spec: the constructor call \<open>InferenceInput(alpha=.., num_inference_steps=..,
  seed_image_id=.., start=.., end=..)\<close> of lines 142-148.
\<close>

definition InferenceInput ::
  "rat \<Rightarrow> int \<Rightarrow> string \<Rightarrow> prompt_input \<Rightarrow> prompt_input \<Rightarrow> inference_input" where
  "InferenceInput al steps sid pa pb =
     \<lparr>start = pa, end_prompt = pb, alpha = al, num_inference_steps = steps,
      seed_image_id = sid\<rparr>"

section \<open>Seed image\<close>

definition load_init_image ::
  "('img, 'file, 'pipe) collaborators \<Rightarrow> 'file widgets \<Rightarrow> error + 'img" where
  "load_init_image c w =
     (if w_init_image_name w = ''custom'' then
        (case w_init_image_file w of
           None \<Rightarrow> Inl SeedImageMissing
         | Some init_image_file \<Rightarrow>
             (case image_open c (SeedUpload init_image_file) of
                None \<Rightarrow> Inl SeedImageError
              | Some im \<Rightarrow> Inr (convert c im ''RGB'')))
      else
        (let init_image_path = ''seed_images/'' @ w_init_image_name w @ ''.png''
         in case image_open c (SeedPath init_image_path) of
              None \<Rightarrow> Inl SeedImageError
            | Some im \<Rightarrow> Inr (convert c im ''RGB'')))"

section \<open>The stepping loop\<close>

text \<open>Lines 141-168: one request and one memoised call per coefficient, in list order.\<close>

fun interpolation_loop ::
  "('img, 'file, 'pipe) collaborators \<Rightarrow> 'file widgets \<Rightarrow> prompt_input \<Rightarrow> prompt_input
     \<Rightarrow> 'img \<Rightarrow> nat \<Rightarrow> (nat \<times> rat) list \<Rightarrow> 'img list \<Rightarrow> bytes list \<Rightarrow> 'img session
     \<Rightarrow> (error + ('img list \<times> bytes list)) \<times> 'img session" where
  "interpolation_loop c w pa pb init_image n [] image_list audio_bytes_list s =
     (Inr (image_list, audio_bytes_list), s)"
| "interpolation_loop c w pa pb init_image n ((i, al) # rest) image_list audio_bytes_list s =
     (let inputs = InferenceInput al (w_num_inference_steps w) ''og_beat'' pa pb;
          s1 = (if i = 0 then say [Json inputs] s else s)
      in case run_interpolation_memo c inputs init_image (w_device w) (w_extension w) s1 of
           (Inl e, s2) \<Rightarrow> (Inl e, s2)
         | (Inr (img, audio_bytes), s2) \<Rightarrow>
             (let s3 = (if w_show_individual_outputs w then
                          say ([Write (''#### ('' @ decimal (i + 1) @ '' / '' @ decimal n
                                       @ '') Alpha='' @ format_f 2 al)]
                               @ (if w_show_images w then [ImageOut img] else [])
                               @ [AudioOut audio_bytes]) s2
                        else s2)
              in interpolation_loop c w pa pb init_image n rest
                   (image_list @ [img]) (audio_bytes_list @ [audio_bytes]) s3))"

section \<open>Audio stitcher\<close>

definition frame_width :: "audio_segment \<Rightarrow> nat" where
  "frame_width seg = channels seg * sample_width seg"

definition frame_count :: "audio_segment \<Rightarrow> nat" where
  "frame_count seg = length (raw_data seg) div frame_width seg"

definition duration_seconds :: "audio_segment \<Rightarrow> rat" where
  "duration_seconds seg =
     (if frame_rate seg \<noteq> 0 then rat_of_nat (frame_count seg) / rat_of_nat (frame_rate seg)
      else 0)"

definition seg_format :: "audio_segment \<Rightarrow> nat \<times> nat \<times> nat" where
  "seg_format seg = (channels seg, frame_rate seg, sample_width seg)"

text \<open>
  pydub's \<open>AudioSegment._sync\<close>: both segments are brought to the larger channel count,
  frame rate and sample width; a segment already in that format is returned as it is.
\<close>

definition sync ::
  "('img, 'file, 'pipe) collaborators \<Rightarrow> audio_segment \<Rightarrow> audio_segment
     \<Rightarrow> audio_segment \<times> audio_segment" where
  "sync c seg1 seg2 =
     (let fmt = (max (channels seg1) (channels seg2),
                 max (frame_rate seg1) (frame_rate seg2),
                 max (sample_width seg1) (sample_width seg2));
          conv = (\<lambda>seg. if seg_format seg = fmt then seg else resample c seg fmt)
      in (conv seg1, conv seg2))"

text \<open>\<open>seg1.append(seg2, crossfade=0)\<close>: the synchronised segments' data, one after the other.\<close>

definition append_crossfade0 ::
  "('img, 'file, 'pipe) collaborators \<Rightarrow> audio_segment \<Rightarrow> audio_segment \<Rightarrow> audio_segment" where
  "append_crossfade0 c seg1 seg2 =
     (case sync c seg1 seg2 of (s1, s2) \<Rightarrow> s1\<lparr>raw_data := raw_data s1 @ raw_data s2\<rparr>)"

fun decode_all ::
  "('img, 'file, 'pipe) collaborators \<Rightarrow> bytes list \<Rightarrow> error + audio_segment list" where
  "decode_all c [] = Inr []"
| "decode_all c (b # bs) =
     (case from_file c b of
        None \<Rightarrow> Inl CodecError
      | Some seg \<Rightarrow>
          (case decode_all c bs of Inl e \<Rightarrow> Inl e | Inr segs \<Rightarrow> Inr (seg # segs)))"

text \<open>Lines 173-176.\<close>

definition stitch ::
  "('img, 'file, 'pipe) collaborators \<Rightarrow> bytes list \<Rightarrow> error + audio_segment" where
  "stitch c audio_bytes_list =
     (case decode_all c audio_bytes_list of
        Inl e \<Rightarrow> Inl e
      | Inr audio_segments \<Rightarrow>
          (case audio_segments of
             [] \<Rightarrow> Inl IndexError
           | concat_segment # rest \<Rightarrow> Inr (foldl (append_crossfade0 c) concat_segment rest)))"

section \<open>Output packager\<close>

definition BytesIO :: bytes_io where
  "BytesIO = \<lparr>buffer = [], pos = 0\<rparr>"

definition seek :: "bytes_io \<Rightarrow> nat \<Rightarrow> bytes_io" where
  "seek f n = f\<lparr>pos := n\<rparr>"

definition write_io :: "bytes_io \<Rightarrow> bytes \<Rightarrow> bytes_io" where
  "write_io f d =
     f\<lparr>buffer := take (pos f) (buffer f) @ replicate (pos f - length (buffer f)) 0 @ d
                  @ drop (pos f + length d) (buffer f),
       pos := pos f + length d\<rparr>"

text \<open>\<open>seg.export(out_f, format=fmt)\<close>: the encoded bytes written from the start of the stream.\<close>

definition export_segment ::
  "('img, 'file, 'pipe) collaborators \<Rightarrow> audio_segment \<Rightarrow> bytes_io \<Rightarrow> string
     \<Rightarrow> error + bytes_io" where
  "export_segment c seg out_f fmt =
     (case encode c seg fmt of
        None \<Rightarrow> Inl CodecError
      | Some d \<Rightarrow> Inr (seek (write_io (seek out_f 0) d) 0))"

section \<open>The page\<close>

text \<open>The local variables of \<open>render_interpolation\<close> when it reaches its last line.\<close>

record 'img rendered =
  prompt_input_a :: prompt_input
  prompt_input_b :: prompt_input
  alphas :: "rat list"
  alphas_str :: string
  init_image :: 'img
  image_list :: "'img list"
  audio_bytes_list :: "bytes list"
  concat_segment :: audio_segment
  audio_bytes :: bytes_io
  output_name :: string

definition render_interpolation ::
  "('img, 'file, 'pipe) collaborators \<Rightarrow> 'file widgets \<Rightarrow> 'img session
     \<Rightarrow> (error + 'img rendered) \<times> 'img session" where
  "render_interpolation c w s =
     (case PromptInput (w_guidance w) (get_prompt_inputs w ''a'' False False) of
        Inl e \<Rightarrow> (Inl e, s)
      | Inr pa \<Rightarrow>
     (case PromptInput (w_guidance w) (get_prompt_inputs w ''b'' False False) of
        Inl e \<Rightarrow> (Inl e, s)
      | Inr pb \<Rightarrow>
     if prompt pa = [] \<or> prompt pb = [] then
       (Inl ValidationError, say [Info ''Enter both prompts to interpolate between them''] s)
     else
     (let als = linspace 0 1 (w_num_interpolation_steps w);
          als_str = join '', '' (map (format_f 2) als);
          s = say [Write (''**Alphas** : ['' @ als_str @ '']'')] s
      in case load_init_image c w of
           Inl e \<Rightarrow>
             (Inl e, if e = SeedImageMissing then say [Info ''Upload a custom seed image''] s else s)
         | Inr im \<Rightarrow>
     (case interpolation_loop c w pa pb im (length als) (enumerate_list als) [] [] s of
        (Inl e, s) \<Rightarrow> (Inl e, s)
      | (Inr (imgs, auds), s) \<Rightarrow>
     (let s = say [Write ''#### Final Output''] s
      in case stitch c auds of
           Inl e \<Rightarrow> (Inl e, s)
         | Inr seg \<Rightarrow>
     (case export_segment c seg BytesIO (w_extension w) of
        Inl e \<Rightarrow> (Inl e, s)
      | Inr out \<Rightarrow>
     (let out = seek out 0;
          s = say [Write (''Duration: '' @ format_f 3 (duration_seconds seg) @ '' seconds''),
                   AudioOut (buffer out)] s;
          name = replace_chr (CHR '' '') (CHR ''_'') (prompt pa) @ ''_''
                 @ replace_chr (CHR '' '') (CHR ''_'') (prompt pb) @ ''.'' @ w_extension w;
          s = say [DownloadButton name out name (''audio/'' @ w_extension w)] s
      in (Inr \<lparr>prompt_input_a = pa, prompt_input_b = pb, alphas = als, alphas_str = als_str,
                init_image = im, image_list = imgs, audio_bytes_list = auds,
                concat_segment = seg, audio_bytes = out, output_name = name\<rparr>, s))))))))"

section \<open>Reading the record of calls\<close>

fun infer_calls :: "'img event list \<Rightarrow> 'img memo_key list" where
  "infer_calls [] = []"
| "infer_calls (InferCall k # evs) = k # infer_calls evs"
| "infer_calls (_ # evs) = infer_calls evs"

fun invocations :: "'img event list \<Rightarrow> 'img memo_key list" where
  "invocations [] = []"
| "invocations (Invoke k # evs) = k # invocations evs"
| "invocations (_ # evs) = invocations evs"

fun page_events :: "'img event list \<Rightarrow> 'img event list" where
  "page_events [] = []"
| "page_events (Invoke k # evs) = page_events evs"
| "page_events (ev # evs) = ev # page_events evs"

text \<open>The cache key of the step at coefficient \<open>al\<close> (lines 142-159).\<close>

definition step_key ::
  "'file widgets \<Rightarrow> prompt_input \<Rightarrow> prompt_input \<Rightarrow> 'img \<Rightarrow> rat \<Rightarrow> 'img memo_key" where
  "step_key w pa pb im al =
     (InferenceInput al (w_num_inference_steps w) ''og_beat'' pa pb, im, w_device w, w_extension w)"

text \<open>A call whose return is recorded before the next call is.\<close>

definition call_then_return :: "'img memo_key \<Rightarrow> 'img \<times> bytes \<Rightarrow> 'img event list" where
  "call_then_return k r = [InferCall k, InferReturn k r]"

definition sequential_trace ::
  "'img memo_key list \<Rightarrow> ('img \<times> bytes) list \<Rightarrow> 'img event list" where
  "sequential_trace ks rs = concat (map2 call_then_return ks rs)"

text \<open>What a call or a run added to the record.\<close>

definition new_events :: "'img session \<Rightarrow> 'img session \<Rightarrow> 'img event list" where
  "new_events s s' = drop (length (events s)) (events s')"

section \<open>Sample inputs\<close>

text \<open>
  Stand-ins for the collaborators, small enough to evaluate: images are numbers, the
  decoder reads the bytes as 16-bit mono samples, the encoder writes them back.
\<close>

definition demo_collab :: "(nat, nat, unit) collaborators" where
  "demo_collab =
     \<lparr>load_riffusion_checkpoint = (\<lambda>d t. Some ()),
      riffuse = (\<lambda>p inp im m. Some (im + 1)),
      audio_bytes_from_spectrogram_image = (\<lambda>im ps d e. Some [1, 2, 3, 4]),
      image_open = (\<lambda>src. case src of SeedPath p \<Rightarrow> Some (length p) | SeedUpload f \<Rightarrow> Some f),
      convert = (\<lambda>im m. im),
      from_file = (\<lambda>b. Some \<lparr>raw_data = b, sample_width = 2, frame_rate = 2, channels = 1\<rparr>),
      encode = (\<lambda>seg f. Some (raw_data seg)),
      resample = (\<lambda>seg f. seg)\<rparr>"

definition demo_widgets :: "nat widgets" where
  "demo_widgets =
     \<lparr>w_device = ''cuda'', w_extension = ''mp3'', w_num_interpolation_steps = 3,
      w_num_inference_steps = 50, w_guidance = 7, w_init_image_name = ''agile'',
      w_init_image_file = None, w_show_individual_outputs = True, w_show_images = False,
      w_text_input = (\<lambda>k. if k = ''prompt_a'' then ''church bells''
                         else if k = ''prompt_b'' then ''jazz'' else ''noise''),
      w_int_input = (\<lambda>k. 42), w_number_input = (\<lambda>k. 1 / 2)\<rparr>"

definition demo_rendered :: "nat rendered" where
  "demo_rendered =
     \<lparr>prompt_input_a = \<lparr>prompt = ''church bells'', seed = 42, negative_prompt = None,
                         denoising = 1 / 2, guidance = 7\<rparr>,
      prompt_input_b = \<lparr>prompt = ''jazz'', seed = 42, negative_prompt = None,
                         denoising = 1 / 2, guidance = 7\<rparr>,
      alphas = [0, 1 / 2, 1], alphas_str = ''0.00, 0.50, 1.00'',
      init_image = 21, image_list = [22, 22, 22],
      audio_bytes_list = [[1, 2, 3, 4], [1, 2, 3, 4], [1, 2, 3, 4]],
      concat_segment = \<lparr>raw_data = [1, 2, 3, 4, 1, 2, 3, 4, 1, 2, 3, 4],
                         sample_width = 2, frame_rate = 2, channels = 1\<rparr>,
      audio_bytes = \<lparr>buffer = [1, 2, 3, 4, 1, 2, 3, 4, 1, 2, 3, 4], pos = 0\<rparr>,
      output_name = ''church_bells_jazz.mp3''\<rparr>"

definition demo_session :: "nat session" where
  "demo_session = snd (render_interpolation demo_collab demo_widgets fresh)"





section \<open>Process lifetime\<close>

text \<open>
  The sessions a process can reach from \<open>s\<close>: any number of further memoised calls and page
  runs, in any order, with the same collaborators.
\<close>

inductive later ::
  "('img, 'file, 'pipe) collaborators \<Rightarrow> 'img session \<Rightarrow> 'img session \<Rightarrow> bool"
  for c :: "('img, 'file, 'pipe) collaborators" where
  later_now: "later c s s"
| later_call:
    "later c s s1 \<Longrightarrow> run_interpolation_memo c i im d e s1 = (res, s2) \<Longrightarrow> later c s s2"
| later_run:
    "later c s s1 \<Longrightarrow> render_interpolation c w s1 = (out, s2) \<Longrightarrow> later c s s2"

definition demo_inputs :: inference_input where
  "demo_inputs =
     InferenceInput 0 50 ''og_beat'' (prompt_input_a demo_rendered) (prompt_input_b demo_rendered)"

definition demo_first_call :: "nat session" where
  "demo_first_call = snd (run_interpolation_memo demo_collab demo_inputs 21 ''cuda'' ''mp3'' fresh)"

section \<open>Lemmas on the record of calls\<close>

lemma infer_calls_append: "infer_calls (xs @ ys) = infer_calls xs @ infer_calls ys"
  by (induction xs rule: infer_calls.induct) auto

lemma invocations_append: "invocations (xs @ ys) = invocations xs @ invocations ys"
  by (induction xs rule: invocations.induct) auto

lemma page_events_append: "page_events (xs @ ys) = page_events xs @ page_events ys"
  by (induction xs rule: page_events.induct) auto

lemma say_fields: "events (say outs s) = events s" "memo (say outs s) = memo s"
  "ui (say outs s) = ui s @ outs"
  by (simp_all add: say_def)

lemma memo_call:
  assumes "run_interpolation_memo c i im d e s = (res, s')"
  shows "ui s' = ui s"
    and "\<exists>ivk. events s' = events s @ [InferCall (i, im, d, e)] @ ivk
            @ (case res of Inr r \<Rightarrow> [InferReturn (i, im, d, e) r] | Inl x \<Rightarrow> [])
          \<and> (ivk = [] \<or> ivk = [Invoke (i, im, d, e)])
          \<and> (ivk = [] \<longleftrightarrow> map_of (memo s) (i, im, d, e) \<noteq> None)"
    and "map_of (memo s) k' = Some r' \<Longrightarrow> map_of (memo s') k' = Some r'"
    and "res = Inr r \<Longrightarrow> map_of (memo s') (i, im, d, e) = Some r"
  using assms
  by (auto simp: run_interpolation_memo_def record_events_def Let_def
      split: option.splits sum.splits)

lemma page_events_call:
  "ivk = [] \<or> ivk = [Invoke k] \<Longrightarrow>
   page_events ([InferCall k] @ ivk @ [InferReturn k r] @ new) = call_then_return k r @ page_events new"
  by (auto simp: call_then_return_def)

lemma infer_calls_call:
  "ivk = [] \<or> ivk = [Invoke k] \<Longrightarrow>
   infer_calls ([InferCall k] @ ivk @ [InferReturn k r] @ new) = k # infer_calls new"
  by auto

lemma loop_ok:
  "interpolation_loop c w pa pb im n ials il al s = (Inr (il', al'), s') \<Longrightarrow>
   \<exists>new ims auds. events s' = events s @ new \<and> il' = il @ ims \<and> al' = al @ auds
      \<and> length ims = length ials \<and> length auds = length ials
      \<and> page_events new = sequential_trace (map (\<lambda>p. step_key w pa pb im (snd p)) ials) (zip ims auds)
      \<and> infer_calls new = map (\<lambda>p. step_key w pa pb im (snd p)) ials"
proof (induction ials arbitrary: il al s)
  case Nil
  then show ?case by (simp add: sequential_trace_def)
next
  case (Cons p ials)
  obtain i a where p: "p = (i, a)" by (cases p)
  define inputs where "inputs = InferenceInput a (w_num_inference_steps w) ''og_beat'' pa pb"
  define s1 where "s1 = (if i = 0 then say [Json inputs] s else s)"
  define k where "k = step_key w pa pb im a"
  obtain res s2 where call:
    "run_interpolation_memo c inputs im (w_device w) (w_extension w) s1 = (res, s2)"
    by (cases "run_interpolation_memo c inputs im (w_device w) (w_extension w) s1")
  have k: "k = (inputs, im, w_device w, w_extension w)"
    by (simp add: k_def step_key_def inputs_def)
  from Cons.prems p call obtain img ab where res: "res = Inr (img, ab)"
    unfolding inputs_def s1_def by (cases res) (auto simp: Let_def)
  define s3 where "s3 = (if w_show_individual_outputs w then
                          say ([Write (''#### ('' @ decimal (i + 1) @ '' / '' @ decimal n
                                       @ '') Alpha='' @ format_f 2 a)]
                               @ (if w_show_images w then [ImageOut img] else [])
                               @ [AudioOut ab]) s2
                        else s2)"
  have rec: "interpolation_loop c w pa pb im n ials (il @ [img]) (al @ [ab]) s3 = (Inr (il', al'), s')"
    using Cons.prems p call res unfolding inputs_def s1_def s3_def by (simp add: Let_def)
  from Cons.IH [OF rec] obtain new ims auds where
    new: "events s' = events s3 @ new" "il' = (il @ [img]) @ ims" "al' = (al @ [ab]) @ auds"
      "length ims = length ials" "length auds = length ials"
      "page_events new = sequential_trace (map (\<lambda>p. step_key w pa pb im (snd p)) ials) (zip ims auds)"
      "infer_calls new = map (\<lambda>p. step_key w pa pb im (snd p)) ials"
    by blast
  from memo_call(2) [OF call] res k obtain ivk where
    ivk: "events s2 = events s1 @ [InferCall k] @ ivk @ [InferReturn k (img, ab)]"
      "ivk = [] \<or> ivk = [Invoke k]"
    by auto
  have e1: "events s1 = events s" by (simp add: s1_def say_fields)
  have e3: "events s3 = events s2" by (simp add: s3_def say_fields)
  let ?new = "[InferCall k] @ ivk @ [InferReturn k (img, ab)] @ new"
  have "events s' = events s @ ?new" using new(1) ivk(1) e1 e3 by simp
  moreover have "il' = il @ (img # ims)" "al' = al @ (ab # auds)" using new by simp_all
  moreover have "length (img # ims) = length (p # ials)" "length (ab # auds) = length (p # ials)"
    using new by simp_all
  moreover have "page_events ?new
      = sequential_trace (map (\<lambda>p. step_key w pa pb im (snd p)) (p # ials)) (zip (img # ims) (ab # auds))"
    using page_events_call [OF ivk(2)] new(6) by (simp add: p k_def sequential_trace_def)
  moreover have "infer_calls ?new = map (\<lambda>p. step_key w pa pb im (snd p)) (p # ials)"
    using infer_calls_call [OF ivk(2)] new(7) by (simp add: p k_def)
  ultimately show ?case by blast
qed

lemma loop_memo_mono:
  "interpolation_loop c w pa pb im n ials il al s = (res, s') \<Longrightarrow>
   map_of (memo s) k = Some r \<Longrightarrow> map_of (memo s') k = Some r"
proof (induction ials arbitrary: il al s)
  case Nil
  then show ?case by simp
next
  case (Cons p ials)
  obtain i a where p: "p = (i, a)" by (cases p)
  define inputs where "inputs = InferenceInput a (w_num_inference_steps w) ''og_beat'' pa pb"
  define s1 where "s1 = (if i = 0 then say [Json inputs] s else s)"
  obtain res1 s2 where call:
    "run_interpolation_memo c inputs im (w_device w) (w_extension w) s1 = (res1, s2)"
    by (cases "run_interpolation_memo c inputs im (w_device w) (w_extension w) s1")
  have "map_of (memo s1) k = Some r" using Cons.prems(2) by (simp add: s1_def say_fields)
  then have m2: "map_of (memo s2) k = Some r" by (rule memo_call(3) [OF call])
  show ?case
  proof (cases res1)
    case (Inl e)
    then have "s' = s2" using Cons.prems(1) p call unfolding inputs_def s1_def
      by (simp add: Let_def)
    then show ?thesis using m2 by simp
  next
    case (Inr ra)
    obtain img ab where ra: "ra = (img, ab)" by (cases ra)
    define s3 where "s3 = (if w_show_individual_outputs w then
                          say ([Write (''#### ('' @ decimal (i + 1) @ '' / '' @ decimal n
                                       @ '') Alpha='' @ format_f 2 a)]
                               @ (if w_show_images w then [ImageOut img] else [])
                               @ [AudioOut ab]) s2
                        else s2)"
    have rec: "interpolation_loop c w pa pb im n ials (il @ [img]) (al @ [ab]) s3 = (res, s')"
      using Cons.prems(1) p call Inr ra unfolding inputs_def s1_def s3_def by (simp add: Let_def)
    have "map_of (memo s3) k = Some r" using m2 by (simp add: s3_def say_fields)
    then show ?thesis by (rule Cons.IH [OF rec])
  qed
qed

lemma prompt_input_of_widgets:
  "PromptInput g (get_prompt_inputs w key False cols) =
     Inr \<lparr>prompt = w_text_input w (''prompt_'' @ key), seed = w_int_input w (''seed_'' @ key),
          negative_prompt = None, denoising = w_number_input w (''denoising_'' @ key),
          guidance = g\<rparr>"
  by (simp add: PromptInput_def get_prompt_inputs_def)

lemma render_okE:
  assumes "render_interpolation c w s = (Inr r, s')"
  obtains s2 out where
    "prompt_input_a r = \<lparr>prompt = w_text_input w ''prompt_a'', seed = w_int_input w ''seed_a'',
          negative_prompt = None, denoising = w_number_input w ''denoising_a'',
          guidance = w_guidance w\<rparr>"
    "prompt_input_b r = \<lparr>prompt = w_text_input w ''prompt_b'', seed = w_int_input w ''seed_b'',
          negative_prompt = None, denoising = w_number_input w ''denoising_b'',
          guidance = w_guidance w\<rparr>"
    "w_text_input w ''prompt_a'' \<noteq> []" "w_text_input w ''prompt_b'' \<noteq> []"
    "alphas r = linspace 0 1 (w_num_interpolation_steps w)"
    "alphas_str r = join '', '' (map (format_f 2) (alphas r))"
    "load_init_image c w = Inr (init_image r)"
    "interpolation_loop c w (prompt_input_a r) (prompt_input_b r) (init_image r)
       (length (alphas r)) (enumerate_list (alphas r)) [] []
       (say [Write (''**Alphas** : ['' @ alphas_str r @ '']'')] s)
     = (Inr (image_list r, audio_bytes_list r), s2)"
    "stitch c (audio_bytes_list r) = Inr (concat_segment r)"
    "export_segment c (concat_segment r) BytesIO (w_extension w) = Inr out"
    "audio_bytes r = seek out 0"
    "output_name r = replace_chr (CHR '' '') (CHR ''_'') (w_text_input w ''prompt_a'') @ ''_''
        @ replace_chr (CHR '' '') (CHR ''_'') (w_text_input w ''prompt_b'') @ ''.'' @ w_extension w"
    "s' = say [DownloadButton (output_name r) (audio_bytes r) (output_name r)
                 (''audio/'' @ w_extension w)]
            (say [Write (''Duration: '' @ format_f 3 (duration_seconds (concat_segment r))
                         @ '' seconds''), AudioOut (buffer (audio_bytes r))]
               (say [Write ''#### Final Output''] s2))"
  using assms unfolding render_interpolation_def prompt_input_of_widgets
  by (auto simp: Let_def split: sum.splits prod.splits if_splits)

lemma demo_run: "render_interpolation demo_collab demo_widgets fresh = (Inr demo_rendered, demo_session)"
proof -
  have "fst (render_interpolation demo_collab demo_widgets fresh) = Inr demo_rendered"
    by code_simp
  then show ?thesis by (simp add: demo_session_def prod_eq_iff)
qed

lemma new_events_append: "events s' = events s @ new \<Longrightarrow> new_events s s' = new"
  by (simp add: new_events_def)

lemma enumerate_list_snd: "map snd (enumerate_list xs) = xs"
  by (simp add: enumerate_list_def)

lemma enumerate_list_map_snd: "map (\<lambda>p. f (snd p)) (enumerate_list xs) = map f xs"
proof -
  have "map (\<lambda>p. f (snd p)) (enumerate_list xs) = map f (map snd (enumerate_list xs))"
    by (simp add: comp_def)
  then show ?thesis by (simp add: enumerate_list_snd)
qed

lemma render_trace:
  assumes "render_interpolation c w s = (Inr r, s')"
  shows "events s' = events s @ new_events s s'"
    and "infer_calls (new_events s s')
         = map (step_key w (prompt_input_a r) (prompt_input_b r) (init_image r)) (alphas r)"
    and "page_events (new_events s s')
         = sequential_trace
             (map (step_key w (prompt_input_a r) (prompt_input_b r) (init_image r)) (alphas r))
             (zip (image_list r) (audio_bytes_list r))"
    and "length (image_list r) = length (alphas r)"
    and "length (audio_bytes_list r) = length (alphas r)"
proof -
  from assms obtain s2 out where
    loop: "interpolation_loop c w (prompt_input_a r) (prompt_input_b r) (init_image r)
       (length (alphas r)) (enumerate_list (alphas r)) [] []
       (say [Write (''**Alphas** : ['' @ alphas_str r @ '']'')] s)
     = (Inr (image_list r, audio_bytes_list r), s2)"
    and s': "s' = say [DownloadButton (output_name r) (audio_bytes r) (output_name r)
                 (''audio/'' @ w_extension w)]
            (say [Write (''Duration: '' @ format_f 3 (duration_seconds (concat_segment r))
                         @ '' seconds''), AudioOut (buffer (audio_bytes r))]
               (say [Write ''#### Final Output''] s2))"
    by (rule render_okE)
  let ?key = "step_key w (prompt_input_a r) (prompt_input_b r) (init_image r)"
  from loop_ok [OF loop] obtain new ims auds where
    new: "events s2 = events s @ new" "image_list r = ims" "audio_bytes_list r = auds"
      "length ims = length (alphas r)" "length auds = length (alphas r)"
      "page_events new = sequential_trace (map (\<lambda>p. ?key (snd p)) (enumerate_list (alphas r))) (zip ims auds)"
      "infer_calls new = map (\<lambda>p. ?key (snd p)) (enumerate_list (alphas r))"
    by (auto simp: say_fields enumerate_list_def)
  have keys: "map (\<lambda>p. ?key (snd p)) (enumerate_list (alphas r)) = map ?key (alphas r)"
    by (rule enumerate_list_map_snd)
  have ev: "events s' = events s @ new" using new(1) s' by (simp add: say_fields)
  then have ne: "new_events s s' = new" by (rule new_events_append)
  show "events s' = events s @ new_events s s'" using ev ne by simp
  show "infer_calls (new_events s s') = map ?key (alphas r)" using new(7) keys ne by simp
  show "page_events (new_events s s') = sequential_trace (map ?key (alphas r)) (zip (image_list r) (audio_bytes_list r))"
    using new(6) new(2,3) keys ne by simp
  show "length (image_list r) = length (alphas r)" using new by simp
  show "length (audio_bytes_list r) = length (alphas r)" using new by simp
qed

section \<open>Validation\<close>

text \<open>
  C4. When either endpoint's prompt text is empty, the run stops at the validation
  (lines 114-116) with \<open>ValidationError\<close>: nothing is added to the record of calls, so no
  request was built and no inference call or collaborator invocation was made, and the
  cache is untouched.
\<close>
theorem empty_prompt_aborts:
  assumes "w_text_input w ''prompt_a'' = [] \<or> w_text_input w ''prompt_b'' = []"
  shows "\<exists>s'. render_interpolation c w s = (Inl ValidationError, s')
            \<and> events s' = events s \<and> memo s' = memo s"
  using assms unfolding render_interpolation_def prompt_input_of_widgets
  by (auto simp: say_fields)

theorem empty_prompt_aborts_witness:
  "(w_text_input (demo_widgets\<lparr>w_text_input := (\<lambda>k. if k = ''prompt_a'' then ''church bells'' else [])\<rparr>) ''prompt_a'' = []
    \<or> w_text_input (demo_widgets\<lparr>w_text_input := (\<lambda>k. if k = ''prompt_a'' then ''church bells'' else [])\<rparr>) ''prompt_b'' = [])
   \<and> (\<exists>s'. render_interpolation demo_collab
              (demo_widgets\<lparr>w_text_input := (\<lambda>k. if k = ''prompt_a'' then ''church bells'' else [])\<rparr>) fresh
            = (Inl ValidationError, s') \<and> events s' = [] \<and> memo s' = [])"
  using empty_prompt_aborts [of "demo_widgets\<lparr>w_text_input := (\<lambda>k. if k = ''prompt_a'' then ''church bells'' else [])\<rparr>" demo_collab fresh]
  by (simp add: fresh_def)

lemma calls_in_run:
  assumes "render_interpolation c w s = (Inr r, s')"
    and "k \<in> set (infer_calls (new_events s s'))"
  shows "\<exists>al\<in>set (alphas r). k = step_key w (prompt_input_a r) (prompt_input_b r) (init_image r) al"
  using assms(2) unfolding render_trace(2) [OF assms(1)] by auto

lemma endpoints_of_run:
  assumes "render_interpolation c w s = (Inr r, s')"
  shows "PromptInput (w_guidance w) (get_prompt_inputs w ''a'' False False) = Inr (prompt_input_a r)"
    and "PromptInput (w_guidance w) (get_prompt_inputs w ''b'' False False) = Inr (prompt_input_b r)"
    and "negative_prompt (prompt_input_a r) = None"
    and "negative_prompt (prompt_input_b r) = None"
    and "guidance (prompt_input_a r) = w_guidance w"
    and "guidance (prompt_input_b r) = w_guidance w"
    and "prompt (prompt_input_a r) = w_text_input w ''prompt_a''"
    and "prompt (prompt_input_b r) = w_text_input w ''prompt_b''"
proof -
  from assms obtain
    a: "prompt_input_a r = \<lparr>prompt = w_text_input w ''prompt_a'', seed = w_int_input w ''seed_a'',
          negative_prompt = None, denoising = w_number_input w ''denoising_a'',
          guidance = w_guidance w\<rparr>"
    and b: "prompt_input_b r = \<lparr>prompt = w_text_input w ''prompt_b'', seed = w_int_input w ''seed_b'',
          negative_prompt = None, denoising = w_number_input w ''denoising_b'',
          guidance = w_guidance w\<rparr>"
    by (rule render_okE)
  show "PromptInput (w_guidance w) (get_prompt_inputs w ''a'' False False) = Inr (prompt_input_a r)"
    by (simp add: prompt_input_of_widgets a)
  show "PromptInput (w_guidance w) (get_prompt_inputs w ''b'' False False) = Inr (prompt_input_b r)"
    by (simp add: prompt_input_of_widgets b)
  show "negative_prompt (prompt_input_a r) = None" by (simp add: a)
  show "negative_prompt (prompt_input_b r) = None" by (simp add: b)
  show "guidance (prompt_input_a r) = w_guidance w" by (simp add: a)
  show "guidance (prompt_input_b r) = w_guidance w" by (simp add: b)
  show "prompt (prompt_input_a r) = w_text_input w ''prompt_a''" by (simp add: a)
  show "prompt (prompt_input_b r) = w_text_input w ''prompt_b''" by (simp add: b)
qed

lemma step_key_fields:
  "fst (step_key w pa pb im al) = InferenceInput al (w_num_inference_steps w) ''og_beat'' pa pb"
  "fst (snd (step_key w pa pb im al)) = im"
  "fst (snd (snd (step_key w pa pb im al))) = w_device w"
  "snd (snd (snd (step_key w pa pb im al))) = w_extension w"
  by (simp_all add: step_key_def)

section \<open>Requests of one run\<close>

text \<open>
  C10. In every completed run both endpoints come from the prompt-input builder called
  without negative prompts (its dictionary has no \<open>negative_prompt\<close> key), and in every
  request passed to inference the negative prompt of the start and of the end endpoint
  is absent.
\<close>
theorem no_negative_prompt:
  assumes "render_interpolation c w s = (Inr r, s')"
  shows "PromptInput (w_guidance w) (get_prompt_inputs w ''a'' False False) = Inr (prompt_input_a r)
       \<and> PromptInput (w_guidance w) (get_prompt_inputs w ''b'' False False) = Inr (prompt_input_b r)
       \<and> get_prompt_inputs w ''a'' False False ''negative_prompt'' = None
       \<and> get_prompt_inputs w ''b'' False False ''negative_prompt'' = None
       \<and> (\<forall>k\<in>set (infer_calls (new_events s s')).
             start (fst k) = prompt_input_a r \<and> end_prompt (fst k) = prompt_input_b r
           \<and> negative_prompt (start (fst k)) = None
           \<and> negative_prompt (end_prompt (fst k)) = None)"
proof -
  have "start (fst k) = prompt_input_a r \<and> end_prompt (fst k) = prompt_input_b r
           \<and> negative_prompt (start (fst k)) = None
           \<and> negative_prompt (end_prompt (fst k)) = None"
    if "k \<in> set (infer_calls (new_events s s'))" for k
    using calls_in_run [OF assms that] endpoints_of_run(3,4) [OF assms]
    by (auto simp: step_key_fields InferenceInput_def)
  moreover have "get_prompt_inputs w key False False ''negative_prompt'' = None" for key
    by (simp add: get_prompt_inputs_def)
  ultimately show ?thesis using endpoints_of_run(1,2) [OF assms] by blast
qed

theorem no_negative_prompt_witness:
  "render_interpolation demo_collab demo_widgets fresh = (Inr demo_rendered, demo_session)
   \<and> infer_calls (new_events fresh demo_session) \<noteq> []
   \<and> list_all (\<lambda>k. negative_prompt (start (fst k)) = None
                     \<and> negative_prompt (end_prompt (fst k)) = None)
        (infer_calls (new_events fresh demo_session))"
proof -
  have "infer_calls (new_events fresh demo_session) \<noteq> []"
    unfolding render_trace(2) [OF demo_run] by (simp add: demo_rendered_def)
  moreover have "\<forall>k\<in>set (infer_calls (new_events fresh demo_session)).
      negative_prompt (start (fst k)) = None \<and> negative_prompt (end_prompt (fst k)) = None"
    using no_negative_prompt [OF demo_run] by blast
  then have "list_all (\<lambda>k. negative_prompt (start (fst k)) = None
                     \<and> negative_prompt (end_prompt (fst k)) = None)
        (infer_calls (new_events fresh demo_session))"
    unfolding list_all_iff .
  ultimately show ?thesis using demo_run by blast
qed



text \<open>
  C6. Across the requests of one completed run only \<open>alpha\<close> varies: it runs through the
  scheduled coefficients, while the inference-step count, the seed-image identifier, both
  endpoints and their guidance scale are the same in every request, so any two requests
  agree once their \<open>alpha\<close> is made equal.
\<close>
theorem only_alpha_varies:
  assumes "render_interpolation c w s = (Inr r, s')"
  shows "map (\<lambda>k. alpha (fst k)) (infer_calls (new_events s s')) = alphas r
       \<and> (\<forall>k\<in>set (infer_calls (new_events s s')).
             num_inference_steps (fst k) = w_num_inference_steps w
           \<and> seed_image_id (fst k) = ''og_beat''
           \<and> start (fst k) = prompt_input_a r
           \<and> end_prompt (fst k) = prompt_input_b r
           \<and> guidance (start (fst k)) = w_guidance w
           \<and> guidance (end_prompt (fst k)) = w_guidance w
           \<and> (\<forall>k'\<in>set (infer_calls (new_events s s')).
                 (fst k)\<lparr>alpha := alpha (fst k')\<rparr> = fst k'))"
proof -
  have fields: "num_inference_steps (fst k) = w_num_inference_steps w
           \<and> seed_image_id (fst k) = ''og_beat''
           \<and> start (fst k) = prompt_input_a r
           \<and> end_prompt (fst k) = prompt_input_b r
           \<and> guidance (start (fst k)) = w_guidance w
           \<and> guidance (end_prompt (fst k)) = w_guidance w"
    if "k \<in> set (infer_calls (new_events s s'))" for k
    using calls_in_run [OF assms that] endpoints_of_run(5,6) [OF assms]
    by (auto simp: step_key_fields InferenceInput_def)
  have pair: "(fst k)\<lparr>alpha := alpha (fst k')\<rparr> = fst k'"
    if "k \<in> set (infer_calls (new_events s s'))" "k' \<in> set (infer_calls (new_events s s'))" for k k'
    using fields [OF that(1)] fields [OF that(2)] by simp
  have "map (\<lambda>k. alpha (fst k)) (infer_calls (new_events s s')) = alphas r"
    unfolding render_trace(2) [OF assms]
    by (simp add: comp_def step_key_fields InferenceInput_def)
  then show ?thesis using fields pair by blast
qed

theorem only_alpha_varies_witness:
  "render_interpolation demo_collab demo_widgets fresh = (Inr demo_rendered, demo_session)
   \<and> map (\<lambda>k. alpha (fst k)) (infer_calls (new_events fresh demo_session)) = [0, 1 / 2, 1]
   \<and> list_all (\<lambda>k. num_inference_steps (fst k) = 50 \<and> guidance (start (fst k)) = 7)
        (infer_calls (new_events fresh demo_session))"
proof -
  have "alphas demo_rendered = [0, 1 / 2, 1]" "w_num_inference_steps demo_widgets = 50"
    "w_guidance demo_widgets = 7" "guidance (prompt_input_a demo_rendered) = 7"
    by (simp_all add: demo_rendered_def demo_widgets_def)
  moreover have "map (\<lambda>k. alpha (fst k)) (infer_calls (new_events fresh demo_session))
        = alphas demo_rendered"
    "\<forall>k\<in>set (infer_calls (new_events fresh demo_session)).
       num_inference_steps (fst k) = w_num_inference_steps demo_widgets
       \<and> guidance (start (fst k)) = w_guidance demo_widgets"
    using only_alpha_varies [OF demo_run] by blast+
  ultimately have "map (\<lambda>k. alpha (fst k)) (infer_calls (new_events fresh demo_session))
        = [0, 1 / 2, 1]"
    "list_all (\<lambda>k. num_inference_steps (fst k) = 50 \<and> guidance (start (fst k)) = 7)
        (infer_calls (new_events fresh demo_session))"
    unfolding list_all_iff by simp_all
  then show ?thesis using demo_run by blast
qed

section \<open>Stitching and packaging\<close>

lemma export_segment_fresh:
  "export_segment c seg BytesIO fmt = Inr out \<Longrightarrow>
   encode c seg fmt = Some (buffer out) \<and> pos out = 0"
  by (auto simp: export_segment_def BytesIO_def seek_def write_io_def split: option.splits)







text \<open>
  C8. In every completed run the display name is prompt A's text with each space replaced
  by an underscore, an underscore, prompt B's text treated the same way, a dot and the
  chosen extension; the stream handed to the download button holds the encoding of the
  stitched segment and is positioned at its start.
\<close>
theorem output_packager:
  assumes "render_interpolation c w s = (Inr r, s')"
  shows "output_name r = replace_chr (CHR '' '') (CHR ''_'') (prompt (prompt_input_a r)) @ ''_''
           @ replace_chr (CHR '' '') (CHR ''_'') (prompt (prompt_input_b r)) @ ''.'' @ w_extension w
       \<and> prompt (prompt_input_a r) = w_text_input w ''prompt_a''
       \<and> prompt (prompt_input_b r) = w_text_input w ''prompt_b''
       \<and> encode c (concat_segment r) (w_extension w) = Some (buffer (audio_bytes r))
       \<and> pos (audio_bytes r) = 0
       \<and> last (ui s') = DownloadButton (output_name r) (audio_bytes r) (output_name r)
                           (''audio/'' @ w_extension w)"
proof -
  from assms obtain s2 out where
    ex: "export_segment c (concat_segment r) BytesIO (w_extension w) = Inr out"
    and ab: "audio_bytes r = seek out 0"
    and nm: "output_name r = replace_chr (CHR '' '') (CHR ''_'') (w_text_input w ''prompt_a'') @ ''_''
        @ replace_chr (CHR '' '') (CHR ''_'') (w_text_input w ''prompt_b'') @ ''.'' @ w_extension w"
    and s': "s' = say [DownloadButton (output_name r) (audio_bytes r) (output_name r)
                 (''audio/'' @ w_extension w)]
            (say [Write (''Duration: '' @ format_f 3 (duration_seconds (concat_segment r))
                         @ '' seconds''), AudioOut (buffer (audio_bytes r))]
               (say [Write ''#### Final Output''] s2))"
    by (rule render_okE)
  have "encode c (concat_segment r) (w_extension w) = Some (buffer (audio_bytes r))"
    "pos (audio_bytes r) = 0"
    using export_segment_fresh [OF ex] ab by (simp_all add: seek_def)
  moreover have "last (ui s') = DownloadButton (output_name r) (audio_bytes r) (output_name r)
                           (''audio/'' @ w_extension w)"
    by (simp add: s' say_fields)
  ultimately show ?thesis using nm endpoints_of_run(7,8) [OF assms] by simp
qed

theorem output_packager_witness:
  "render_interpolation demo_collab demo_widgets fresh = (Inr demo_rendered, demo_session)
   \<and> w_text_input demo_widgets ''prompt_a'' = ''church bells''
   \<and> w_text_input demo_widgets ''prompt_b'' = ''jazz''
   \<and> output_name demo_rendered = ''church_bells_jazz.mp3''
   \<and> pos (audio_bytes demo_rendered) = 0
   \<and> last (ui demo_session)
       = DownloadButton ''church_bells_jazz.mp3'' (audio_bytes demo_rendered)
           ''church_bells_jazz.mp3'' ''audio/mp3''"
proof -
  have "w_text_input demo_widgets ''prompt_a'' = ''church bells''"
    "w_text_input demo_widgets ''prompt_b'' = ''jazz''"
    "w_extension demo_widgets = ''mp3''"
    by (simp_all add: demo_widgets_def)
  then show ?thesis
    using demo_run output_packager [OF demo_run] by (simp add: replace_chr_def)
qed





lemma length_linspace: "length (linspace lo hi n) = n"
  by (simp add: linspace_def Let_def)



section \<open>Scheduling\<close>

lemma linspace_nth:
  assumes "1 < n" "i < n"
  shows "linspace 0 1 n ! i = rat_of_nat i / rat_of_nat (n - 1)"
proof -
  have dv: "rat_of_int (int n - 1) = rat_of_nat (n - 1)" using assms(1) by simp
  have pos: "rat_of_nat (n - 1) \<noteq> 0" using assms(1) by simp
  have eq: "linspace 0 1 n = (map (\<lambda>v. rat_of_nat v * (1 / rat_of_nat (n - 1))) [0..<n])[n - 1 := 1]"
    using assms(1) pos unfolding linspace_def Let_def dv by (simp add: comp_def)
  show ?thesis
  proof (cases "i = n - 1")
    case True
    then show ?thesis using assms pos by (simp add: eq)
  next
    case False
    then show ?thesis using assms by (simp add: eq)
  qed
qed

lemma linspace_strict:
  "sorted_wrt (<) (linspace 0 1 n)"
proof (cases "1 < n")
  case True
  have "linspace 0 1 n ! i < linspace 0 1 n ! j" if "i < j" "j < n" for i j
  proof -
    have "rat_of_nat i / rat_of_nat (n - 1) < rat_of_nat j / rat_of_nat (n - 1)"
      using that True by (simp add: divide_strict_right_mono)
    then show ?thesis using that True by (simp add: linspace_nth)
  qed
  then show ?thesis by (simp add: sorted_wrt_iff_nth_less length_linspace)
next
  case False
  then have "n = 0 \<or> n = 1" by auto
  then show ?thesis by (auto simp: linspace_def)
qed






lemma ten_step_scenario:
  "linspace 0 1 10 = [0, 1 / 9, 2 / 9, 1 / 3, 4 / 9, 5 / 9, 2 / 3, 7 / 9, 8 / 9, 1]"
  "join '', '' (map (format_f 2) (linspace 0 1 10))
     = ''0.00, 0.11, 0.22, 0.33, 0.44, 0.56, 0.67, 0.78, 0.89, 1.00''"
  by code_simp+

section \<open>Sequential calls\<close>

lemma memo_call_miss_kept:
  assumes "run_interpolation_memo c i im d e s = (res, s')"
    and "map_of (memo s) k' = None" and "k' \<noteq> (i, im, d, e)"
  shows "map_of (memo s') k' = None"
  using assms
  by (auto simp: run_interpolation_memo_def record_events_def Let_def
      split: option.splits sum.splits)

lemma step_key_inj: "step_key w pa pb im a = step_key w pa pb im a' \<longleftrightarrow> a = a'"
  by (simp add: step_key_def InferenceInput_def)

lemma loop_invocations:
  "interpolation_loop c w pa pb im n ials il al s = (Inr (il', al'), s') \<Longrightarrow>
   length (invocations (new_events s s')) \<le> length ials
   \<and> (distinct (map snd ials)
        \<and> (\<forall>p\<in>set ials. map_of (memo s) (step_key w pa pb im (snd p)) = None)
      \<longrightarrow> invocations (new_events s s') = map (\<lambda>p. step_key w pa pb im (snd p)) ials)"
proof (induction ials arbitrary: il al s)
  case Nil
  then show ?case by (simp add: new_events_def)
next
  case (Cons p ials)
  obtain i a where p: "p = (i, a)" by (cases p)
  define inputs where "inputs = InferenceInput a (w_num_inference_steps w) ''og_beat'' pa pb"
  define s1 where "s1 = (if i = 0 then say [Json inputs] s else s)"
  define k where "k = step_key w pa pb im a"
  obtain res s2 where call:
    "run_interpolation_memo c inputs im (w_device w) (w_extension w) s1 = (res, s2)"
    by (cases "run_interpolation_memo c inputs im (w_device w) (w_extension w) s1")
  have k: "k = (inputs, im, w_device w, w_extension w)"
    by (simp add: k_def step_key_def inputs_def)
  from Cons.prems p call obtain img ab where res: "res = Inr (img, ab)"
    unfolding inputs_def s1_def by (cases res) (auto simp: Let_def)
  define s3 where "s3 = (if w_show_individual_outputs w then
                          say ([Write (''#### ('' @ decimal (i + 1) @ '' / '' @ decimal n
                                       @ '') Alpha='' @ format_f 2 a)]
                               @ (if w_show_images w then [ImageOut img] else [])
                               @ [AudioOut ab]) s2
                        else s2)"
  have rec: "interpolation_loop c w pa pb im n ials (il @ [img]) (al @ [ab]) s3 = (Inr (il', al'), s')"
    using Cons.prems p call res unfolding inputs_def s1_def s3_def by (simp add: Let_def)
  from loop_ok [OF rec] obtain new where new: "events s' = events s3 @ new" by blast
  from memo_call(2) [OF call] res k obtain ivk where
    ivk: "events s2 = events s1 @ [InferCall k] @ ivk @ [InferReturn k (img, ab)]"
      "ivk = [] \<or> ivk = [Invoke k]" "ivk = [] \<longleftrightarrow> map_of (memo s1) k \<noteq> None"
    by auto
  have e1: "events s1 = events s" "memo s1 = memo s" by (simp_all add: s1_def say_fields)
  have e3: "events s3 = events s2" "memo s3 = memo s2" by (simp_all add: s3_def say_fields)
  have n3: "new_events s3 s' = new" using new by (rule new_events_append)
  have "events s' = events s @ ([InferCall k] @ ivk @ [InferReturn k (img, ab)] @ new)"
    using new ivk(1) e1 e3 by simp
  then have n0: "new_events s s' = [InferCall k] @ ivk @ [InferReturn k (img, ab)] @ new"
    by (rule new_events_append)
  have inv: "invocations (new_events s s') = invocations ivk @ invocations (new_events s3 s')"
    using ivk(2) by (auto simp: n0 n3)
  have IH: "length (invocations (new_events s3 s')) \<le> length ials"
    "distinct (map snd ials)
        \<and> (\<forall>p\<in>set ials. map_of (memo s3) (step_key w pa pb im (snd p)) = None)
      \<longrightarrow> invocations (new_events s3 s') = map (\<lambda>p. step_key w pa pb im (snd p)) ials"
    using Cons.IH [OF rec] by simp_all
  have len: "length (invocations (new_events s s')) \<le> length (p # ials)"
    using IH(1) ivk(2) by (auto simp: inv)
  have all: "invocations (new_events s s') = map (\<lambda>p. step_key w pa pb im (snd p)) (p # ials)"
    if d: "distinct (map snd (p # ials))"
      and m: "\<forall>q\<in>set (p # ials). map_of (memo s) (step_key w pa pb im (snd q)) = None"
  proof -
    have "map_of (memo s1) k = None" using m p by (simp add: e1 k_def)
    then have ik: "ivk = [Invoke k]" using ivk(2,3) by auto
    have "map_of (memo s3) (step_key w pa pb im (snd q)) = None" if q: "q \<in> set ials" for q
    proof -
      have "snd q \<noteq> a" using d q p by auto
      then have "step_key w pa pb im (snd q) \<noteq> k"
        by (simp add: k_def step_key_inj)
      then have "step_key w pa pb im (snd q) \<noteq> (inputs, im, w_device w, w_extension w)"
        unfolding k .
      moreover have "map_of (memo s1) (step_key w pa pb im (snd q)) = None"
        using m q by (simp add: e1)
      ultimately show ?thesis using memo_call_miss_kept [OF call] by (simp add: e3)
    qed
    then have "invocations (new_events s3 s') = map (\<lambda>p. step_key w pa pb im (snd p)) ials"
      using IH(2) d by simp
    then show ?thesis by (simp add: inv ik p k_def)
  qed
  show ?case using len all by blast
qed

lemma new_events_cong: "events a = events b \<Longrightarrow> events a' = events b' \<Longrightarrow> new_events a a' = new_events b b'"
  by (simp add: new_events_def)

lemma render_invocations:
  assumes "render_interpolation c w s = (Inr r, s')"
  shows "length (invocations (new_events s s')) \<le> w_num_interpolation_steps w"
    and "memo s = [] \<Longrightarrow> invocations (new_events s s') = infer_calls (new_events s s')"
proof -
  let ?key = "step_key w (prompt_input_a r) (prompt_input_b r) (init_image r)"
  let ?s1 = "say [Write (''**Alphas** : ['' @ alphas_str r @ '']'')] s"
  from assms obtain s2 out where
    al: "alphas r = linspace 0 1 (w_num_interpolation_steps w)"
    and loop: "interpolation_loop c w (prompt_input_a r) (prompt_input_b r) (init_image r)
       (length (alphas r)) (enumerate_list (alphas r)) [] [] ?s1
     = (Inr (image_list r, audio_bytes_list r), s2)"
    and s': "s' = say [DownloadButton (output_name r) (audio_bytes r) (output_name r)
                 (''audio/'' @ w_extension w)]
            (say [Write (''Duration: '' @ format_f 3 (duration_seconds (concat_segment r))
                         @ '' seconds''), AudioOut (buffer (audio_bytes r))]
               (say [Write ''#### Final Output''] s2))"
    by (rule render_okE)
  have ne: "new_events ?s1 s2 = new_events s s'"
    by (rule new_events_cong) (simp_all add: s' say_fields)
  have len: "length (enumerate_list (alphas r)) = w_num_interpolation_steps w"
    by (simp add: enumerate_list_def al length_linspace)
  from loop_invocations [OF loop] have
    a: "length (invocations (new_events ?s1 s2)) \<le> length (enumerate_list (alphas r))"
    and b: "distinct (map snd (enumerate_list (alphas r)))
        \<and> (\<forall>p\<in>set (enumerate_list (alphas r)). map_of (memo ?s1) (?key (snd p)) = None)
      \<longrightarrow> invocations (new_events ?s1 s2) = map (\<lambda>p. ?key (snd p)) (enumerate_list (alphas r))"
    by simp_all
  show "length (invocations (new_events s s')) \<le> w_num_interpolation_steps w"
    using a ne len by simp
  show "invocations (new_events s s') = infer_calls (new_events s s')" if "memo s = []"
  proof -
    have "distinct (alphas r)"
      using linspace_strict [of "w_num_interpolation_steps w"] al by (simp add: strict_sorted_iff)
    then have "distinct (map snd (enumerate_list (alphas r)))" by (simp add: enumerate_list_snd)
    moreover have "\<forall>p\<in>set (enumerate_list (alphas r)). map_of (memo ?s1) (?key (snd p)) = None"
      using that by (simp add: say_fields)
    ultimately have "invocations (new_events ?s1 s2) = map ?key (alphas r)"
      using b by (simp add: enumerate_list_map_snd)
    then show ?thesis using ne render_trace(2) [OF assms] by simp
  qed
qed

text \<open>
  C5. A completed run of \<open>N\<close> steps makes exactly \<open>N\<close> inference calls, their
  coefficients strictly ascending, and on the page's side the record is call, return,
  call, return: each call's return precedes the next call. The collaborators are invoked
  at most once per call, and exactly once per call when the cache was empty.
\<close>
theorem sequential_ascending_calls:
  assumes "render_interpolation c w s = (Inr r, s')"
  shows "length (infer_calls (new_events s s')) = w_num_interpolation_steps w
       \<and> map (\<lambda>k. alpha (fst k)) (infer_calls (new_events s s'))
           = linspace 0 1 (w_num_interpolation_steps w)
       \<and> sorted_wrt (<) (map (\<lambda>k. alpha (fst k)) (infer_calls (new_events s s')))
       \<and> length (zip (image_list r) (audio_bytes_list r)) = w_num_interpolation_steps w
       \<and> page_events (new_events s s')
           = sequential_trace (infer_calls (new_events s s')) (zip (image_list r) (audio_bytes_list r))
       \<and> length (invocations (new_events s s')) \<le> w_num_interpolation_steps w
       \<and> (memo s = [] \<longrightarrow> invocations (new_events s s') = infer_calls (new_events s s'))"
proof -
  from assms obtain al: "alphas r = linspace 0 1 (w_num_interpolation_steps w)"
    by (rule render_okE)
  have alphas: "map (\<lambda>k. alpha (fst k)) (infer_calls (new_events s s'))
           = linspace 0 1 (w_num_interpolation_steps w)"
    unfolding render_trace(2) [OF assms]
    by (simp add: comp_def step_key_fields InferenceInput_def al)
  have len: "length (infer_calls (new_events s s')) = w_num_interpolation_steps w"
    unfolding render_trace(2) [OF assms] by (simp add: al length_linspace)
  have asc: "sorted_wrt (<) (map (\<lambda>k. alpha (fst k)) (infer_calls (new_events s s')))"
    unfolding alphas by (rule linspace_strict)
  have zl: "length (zip (image_list r) (audio_bytes_list r)) = w_num_interpolation_steps w"
    using render_trace(4,5) [OF assms] by (simp add: al length_linspace)
  have tr: "page_events (new_events s s')
           = sequential_trace (infer_calls (new_events s s')) (zip (image_list r) (audio_bytes_list r))"
    using render_trace(2,3) [OF assms] by simp
  show ?thesis using len alphas asc zl tr render_invocations [OF assms] by blast
qed

theorem sequential_ascending_calls_witness:
  "render_interpolation demo_collab demo_widgets fresh = (Inr demo_rendered, demo_session)
   \<and> memo (fresh :: nat session) = []
   \<and> w_num_interpolation_steps demo_widgets = 3
   \<and> length (infer_calls (new_events fresh demo_session)) = 3
   \<and> map (\<lambda>k. alpha (fst k)) (infer_calls (new_events fresh demo_session)) = [0, 1 / 2, 1]
   \<and> page_events (new_events fresh demo_session)
       = sequential_trace (infer_calls (new_events fresh demo_session))
           [(22, [1, 2, 3, 4]), (22, [1, 2, 3, 4]), (22, [1, 2, 3, 4])]
   \<and> invocations (new_events fresh demo_session) = infer_calls (new_events fresh demo_session)"
proof -
  have f: "memo (fresh :: nat session) = []" by (simp add: fresh_def)
  have w: "w_num_interpolation_steps demo_widgets = 3" by (simp add: demo_widgets_def)
  have l: "linspace 0 1 3 = [0, 1 / 2, 1]" by code_simp
  have z: "zip (image_list demo_rendered) (audio_bytes_list demo_rendered)
           = [(22, [1, 2, 3, 4]), (22, [1, 2, 3, 4]), (22, [1, 2, 3, 4])]"
    by (simp add: demo_rendered_def)
  show ?thesis
    using demo_run f w sequential_ascending_calls [OF demo_run] by (simp add: l z)
qed

section \<open>Memoisation\<close>

lemma render_memo_mono:
  assumes "render_interpolation c w s = (res, s')" and "map_of (memo s) k = Some r"
  shows "map_of (memo s') k = Some r"
  using assms unfolding render_interpolation_def prompt_input_of_widgets
  by (auto simp: Let_def say_fields split: sum.splits prod.splits if_splits
      dest!: loop_memo_mono [where k = k and r = r])

lemma later_memo_mono:
  "later c s s' \<Longrightarrow> map_of (memo s) k = Some r \<Longrightarrow> map_of (memo s') k = Some r"
proof (induction rule: later.induct)
  case (later_now s)
  then show ?case by simp
next
  case (later_call s s1 i im d e res s2)
  have "map_of (memo s1) k = Some r" using later_call.IH later_call.prems by simp
  from memo_call(3) [OF \<open>run_interpolation_memo c i im d e s1 = (res, s2)\<close> this]
  show ?case .
next
  case (later_run s s1 w out s2)
  have "map_of (memo s1) k = Some r" using later_run.IH later_run.prems by simp
  from render_memo_mono [OF \<open>render_interpolation c w s1 = (out, s2)\<close> this]
  show ?case .
qed

lemma memo_hit:
  "map_of (memo s) (i, im, d, e) = Some r \<Longrightarrow>
   run_interpolation_memo c i im d e s
   = (Inr r, record_events [InferCall (i, im, d, e), InferReturn (i, im, d, e) r] s)"
  by (simp add: run_interpolation_memo_def record_events_def Let_def)

text \<open>
  C3. Once a per-step inference call has returned a result, a call with the same request,
  seed image, device and output format, made at any later point of the process, returns
  that result without invoking the collaborators; the first call invoked them at most
  once.
\<close>
theorem memoization:
  assumes "run_interpolation_memo c i im d e s0 = (Inr r, s1)"
    and "later c s1 s2"
  shows "length (invocations (new_events s0 s1)) \<le> 1
       \<and> run_interpolation_memo c i im d e s2
           = (Inr r, record_events [InferCall (i, im, d, e), InferReturn (i, im, d, e) r] s2)
       \<and> invocations (new_events s2 (snd (run_interpolation_memo c i im d e s2))) = []"
proof -
  from memo_call(2) [OF assms(1)] obtain ivk where
    ev: "events s1 = events s0 @ [InferCall (i, im, d, e)] @ ivk @ [InferReturn (i, im, d, e) r]"
    and ivk: "ivk = [] \<or> ivk = [Invoke (i, im, d, e)]"
    by auto
  have "new_events s0 s1 = [InferCall (i, im, d, e)] @ ivk @ [InferReturn (i, im, d, e) r]"
    using ev by (rule new_events_append)
  then have one: "length (invocations (new_events s0 s1)) \<le> 1" using ivk by auto
  have "map_of (memo s1) (i, im, d, e) = Some r" using memo_call(4) [OF assms(1)] by simp
  then have "map_of (memo s2) (i, im, d, e) = Some r" by (rule later_memo_mono [OF assms(2)])
  then have hit: "run_interpolation_memo c i im d e s2
           = (Inr r, record_events [InferCall (i, im, d, e), InferReturn (i, im, d, e) r] s2)"
    by (rule memo_hit)
  have "invocations (new_events s2 (snd (run_interpolation_memo c i im d e s2))) = []"
    by (simp add: hit new_events_def record_events_def)
  then show ?thesis using one hit by blast
qed

lemma demo_first:
  "run_interpolation_memo demo_collab demo_inputs 21 ''cuda'' ''mp3'' fresh
   = (Inr (22, [1, 2, 3, 4]), demo_first_call)"
proof -
  have "fst (run_interpolation_memo demo_collab demo_inputs 21 ''cuda'' ''mp3'' fresh)
        = Inr (22, [1, 2, 3, 4])"
    by code_simp
  then show ?thesis by (simp add: demo_first_call_def prod_eq_iff)
qed

theorem memoization_witness:
  "run_interpolation_memo demo_collab demo_inputs 21 ''cuda'' ''mp3'' fresh
     = (Inr (22, [1, 2, 3, 4]), demo_first_call)
   \<and> later demo_collab demo_first_call
       (snd (render_interpolation demo_collab demo_widgets demo_first_call))
   \<and> fst (run_interpolation_memo demo_collab demo_inputs 21 ''cuda'' ''mp3''
            (snd (render_interpolation demo_collab demo_widgets demo_first_call)))
       = Inr (22, [1, 2, 3, 4])
   \<and> invocations (new_events fresh demo_first_call) = [(demo_inputs, 21, ''cuda'', ''mp3'')]"
proof -
  have l: "later demo_collab demo_first_call
       (snd (render_interpolation demo_collab demo_widgets demo_first_call))"
    by (rule later_run [OF later_now]) (rule prod.collapse [symmetric])
  have i: "invocations (new_events fresh demo_first_call) = [(demo_inputs, 21, ''cuda'', ''mp3'')]"
    unfolding demo_first_call_def by code_simp
  show ?thesis using demo_first l i memoization [OF demo_first l] by simp
qed

end
